theory Spec2Isabelle
  imports Complex_Main "HOL-Library.Sublist"
begin

section \<open>Values shared by both scripts\<close>

text \<open>
  An instant is a UTC \<^verbatim>\<open>datetime\<close>, counted in microseconds (the resolution of
  \<^verbatim>\<open>datetime\<close>) since the epoch. Python's floats are idealised as exact reals
  throughout: every float operation of the source is the exact operation here.
\<close>

type_synonym instant = int

text \<open>
  A key of a Python dict that is read with \<^verbatim>\<open>d.get(key, default)\<close>: the key may be
  absent (the default is used), hold \<^verbatim>\<open>None\<close> (the default is not used), or hold a
  value.
\<close>

datatype 'a field = Missing | Null | Val 'a

text \<open>
  What \<^verbatim>\<open>json.loads\<close> returns. A dict is an association list in which the first
  binding of a key is the one the dict holds.
\<close>

datatype json =
    JNull
  | JBool bool
  | JInt int
  | JFloat real
  | JStr string
  | JList "json list"
  | JDict "(string \<times> json) list"

datatype error = AttributeError

section \<open>digest.py\<close>

definition TIME_WINDOW_HOURS :: int where
  "TIME_WINDOW_HOURS = 24"

text \<open>A row of the items table as \<^verbatim>\<open>fetch_user_items\<close> selects it.\<close>

record article =
  a_id :: string
  a_title :: string
  a_source_name :: string

record pick =
  item_id :: string
  reason :: string

record digest =
  user_id :: string
  overview :: json
  picks :: "pick list"
  time_window_hours :: int
  generated_at :: instant

text \<open>\<^verbatim>\<open>dict.get(key)\<close> and \<^verbatim>\<open>dict.get(key, default)\<close> on a parsed JSON object.\<close>

definition dict_get :: "(string \<times> json) list \<Rightarrow> string \<Rightarrow> json" where
  "dict_get d k = (case map_of d k of None \<Rightarrow> JNull | Some v \<Rightarrow> v)"

text \<open>
  \<^verbatim>\<open>isinstance(v, int)\<close> together with the integer that \<^verbatim>\<open>v\<close> compares as:
  \<^verbatim>\<open>bool\<close> is a subclass of \<^verbatim>\<open>int\<close> in Python, with \<^verbatim>\<open>True == 1\<close> and
  \<^verbatim>\<open>False == 0\<close>.
\<close>

fun as_int :: "json \<Rightarrow> int option" where
  "as_int (JInt i) = Some i"
| "as_int (JBool b) = Some (if b then 1 else 0)"
| "as_int _ = None"

text \<open>
  \<^verbatim>\<open>str(v)\<close>: a string is itself; for any other value the text is what the builtin
  prints, which is taken as the parameter \<open>repr\<close>.
\<close>

fun py_str :: "(json \<Rightarrow> string) \<Rightarrow> json \<Rightarrow> string" where
  "py_str repr (JStr s) = s"
| "py_str repr v = repr v"

text \<open>The log lines of \<^verbatim>\<open>write_digest\<close>, with the value they print.\<close>

datatype digest_log = Skipping_pick_with_invalid_index json

text \<open>\<^verbatim>\<open>str(pick.get("reason", ""))[:500]\<close>.\<close>

definition pick_reason :: "(json \<Rightarrow> string) \<Rightarrow> (string \<times> json) list \<Rightarrow> string" where
  "pick_reason repr d =
     take 500 (py_str repr (case map_of d ''reason'' of None \<Rightarrow> JStr '''' | Some v \<Rightarrow> v))"

text \<open>
  The body of the loop over \<^verbatim>\<open>raw_picks\<close>: the pick appended (if any) and the
  warning logged (if any).
\<close>

definition validate_pick ::
  "(json \<Rightarrow> string) \<Rightarrow> article list \<Rightarrow> json \<Rightarrow> pick option \<times> digest_log list" where
  "validate_pick repr items p =
     (case p of
        JDict d \<Rightarrow>
          (let one_based = dict_get d ''index'' in
           case as_int one_based of
             None \<Rightarrow> (None, [Skipping_pick_with_invalid_index one_based])
           | Some i \<Rightarrow>
               if \<not> (1 \<le> i \<and> i \<le> int (length items))
               then (None, [Skipping_pick_with_invalid_index one_based])
               else (Some \<lparr> item_id = a_id (items ! nat (i - 1)),
                            reason = pick_reason repr d \<rparr>, []))
      | _ \<Rightarrow> (None, []))"

fun validate_picks ::
  "(json \<Rightarrow> string) \<Rightarrow> article list \<Rightarrow> json list \<Rightarrow> pick list \<times> digest_log list" where
  "validate_picks repr items [] = ([], [])"
| "validate_picks repr items (p # ps) =
     (let (r, w) = validate_pick repr items p;
          (rs, ws) = validate_picks repr items ps
      in ((case r of None \<Rightarrow> rs | Some x \<Rightarrow> x # rs), w @ ws))"

text \<open>\<^verbatim>\<open>raw_picks\<close>: the picks key when it holds a list, the empty list otherwise.\<close>

definition raw_picks_of :: "(string \<times> json) list \<Rightarrow> json list" where
  "raw_picks_of d = (case dict_get d ''picks'' of JList ps \<Rightarrow> ps | _ \<Rightarrow> [])"

text \<open>
  \<^verbatim>\<open>write_digest\<close>: the row handed to the insert and the warnings logged. A result that
  is not a JSON object has no \<^verbatim>\<open>get\<close>: the call raises. \<open>now\<close> is the clock read for
  \<^verbatim>\<open>generated_at\<close>.
\<close>

definition write_digest ::
  "(json \<Rightarrow> string) \<Rightarrow> instant \<Rightarrow> string \<Rightarrow> article list \<Rightarrow> json
     \<Rightarrow> error + (digest \<times> digest_log list)" where
  "write_digest repr now uid items result =
     (case result of
        JDict d \<Rightarrow>
          (let (ps, ws) = validate_picks repr items (raw_picks_of d)
           in Inr (\<lparr> user_id = uid,
                      overview = (case map_of d ''overview'' of
                                    None \<Rightarrow> JStr '''' | Some v \<Rightarrow> v),
                      picks = ps,
                      time_window_hours = TIME_WINDOW_HOURS,
                      generated_at = now \<rparr>, ws))
      | _ \<Rightarrow> Inl AttributeError)"

text \<open>
  The body of the loop of \<^verbatim>\<open>main\<close> in digest.py for one user, from the items fetched on:
  \<open>result\<close> is what \<^verbatim>\<open>call_claude\<close> returns when it is called (\<open>None\<close> after an error),
  \<open>truthy\<close> is Python's truth value of a parsed JSON value. The outcome is the digest
  written, if any.
\<close>

fun truthy :: "json \<Rightarrow> bool" where
  "truthy JNull = False"
| "truthy (JBool b) = b"
| "truthy (JInt i) = (i \<noteq> 0)"
| "truthy (JFloat x) = (x \<noteq> 0)"
| "truthy (JStr s) = (s \<noteq> [])"
| "truthy (JList l) = (l \<noteq> [])"
| "truthy (JDict d) = (d \<noteq> [])"

definition digest_for_user ::
  "(json \<Rightarrow> string) \<Rightarrow> instant \<Rightarrow> string \<Rightarrow> article list \<Rightarrow> json option
     \<Rightarrow> error + (digest \<times> digest_log list) option" where
  "digest_for_user repr now uid items result =
     (if items = [] then Inr None
      else (case result of
              None \<Rightarrow> Inr None
            | Some r \<Rightarrow>
                if \<not> truthy r then Inr None
                else (case write_digest repr now uid items r of
                        Inl err \<Rightarrow> Inl err
                      | Inr written \<Rightarrow> Inr (Some written))))"

section \<open>Strings\<close>

text \<open>
  Strings are lists of ASCII characters. \<open>is_space\<close> is \<^verbatim>\<open>str.isspace\<close> (and the
  regular expression class \<^verbatim>\<open>\s\<close>) on ASCII, \<open>is_word_char\<close> the class \<^verbatim>\<open>\w\<close>,
  \<open>lower\<close> is \<^verbatim>\<open>str.lower\<close>.
\<close>

definition is_space :: "char \<Rightarrow> bool" where
  "is_space c = (c \<in> {CHR 0x09, CHR 0x0A, CHR 0x0B, CHR 0x0C, CHR 0x0D,
                        CHR 0x1C, CHR 0x1D, CHR 0x1E, CHR 0x1F, CHR 0x20})"

definition strip :: "string \<Rightarrow> string" where
  "strip s = rev (dropWhile is_space (rev (dropWhile is_space s)))"

definition is_word_char :: "char \<Rightarrow> bool" where
  "is_word_char c =
     (c \<in> set ''abcdefghijklmnopqrstuvwxyzABCDEFGHIJKLMNOPQRSTUVWXYZ0123456789_'')"

definition lower_char :: "char \<Rightarrow> char" where
  "lower_char c =
     (case map_of (zip ''ABCDEFGHIJKLMNOPQRSTUVWXYZ'' ''abcdefghijklmnopqrstuvwxyz'') c of
        Some l \<Rightarrow> l
      | None \<Rightarrow> c)"

definition lower :: "string \<Rightarrow> string" where
  "lower s = map lower_char s"

text \<open>\<^verbatim>\<open>kw in s\<close> on strings: \<open>kw\<close> occurs in \<open>s\<close> as a contiguous block.\<close>

fun contains :: "string \<Rightarrow> string \<Rightarrow> bool" where
  "contains kw [] = (kw = [])"
| "contains kw (c # cs) = (prefix kw (c # cs) \<or> contains kw cs)"

section \<open>fetcher.py: constants\<close>

definition MAX_AGE_DAYS :: int where
  "MAX_AGE_DAYS = 30"

text \<open>\<^verbatim>\<open>timedelta(days=d)\<close> in microseconds.\<close>

definition timedelta_days :: "int \<Rightarrow> int" where
  "timedelta_days d = d * 86400 * 1000000"

definition TIER_WEIGHTS :: "int \<rightharpoonup> int" where
  "TIER_WEIGHTS = [1 \<mapsto> 40, 2 \<mapsto> 20]"

definition TIME_DECAY_MAX :: int where
  "TIME_DECAY_MAX = 50"

definition MULTI_SOURCE_BUMP :: int where
  "MULTI_SOURCE_BUMP = 40"

definition METADATA_BUMP :: int where
  "METADATA_BUMP = 30"

definition TITLE_PATTERN_BUMP :: int where
  "TITLE_PATTERN_BUMP = 20"

definition KEYWORD_PENALTY :: int where
  "KEYWORD_PENALTY = - 30"

definition BREAKING_WORDS :: "string list" where
  "BREAKING_WORDS = [''breaking'', ''urgent'', ''flash'', ''alert'', ''exclusive'']"

definition NOISE_KEYWORDS :: "string list" where
  "NOISE_KEYWORDS = [''sponsored'', ''advertisement'', ''buy now'', ''subscribe now'',
                     ''limited offer'', ''click here'']"

definition METADATA_TAGS :: "string list" where
  "METADATA_TAGS = [''featured'', ''breaking'', ''top-news'', ''editors-pick'']"

text \<open>
  \<^verbatim>\<open>BREAKING_PATTERNS.search(title)\<close>: one of the words occurs, in any case, with a word
  boundary on both sides. \<open>word_at w s\<close>: \<open>s\<close> starts with \<open>w\<close> and a boundary follows;
  \<open>search_from prev s\<close> scans \<open>s\<close>, \<open>prev\<close> telling whether the character before it
  is a word character.
\<close>

definition word_at :: "string \<Rightarrow> string \<Rightarrow> bool" where
  "word_at w s =
     (prefix w (lower s) \<and>
      (case drop (length w) s of [] \<Rightarrow> True | c # _ \<Rightarrow> \<not> is_word_char c))"

fun search_from :: "bool \<Rightarrow> string \<Rightarrow> bool" where
  "search_from prev [] = False"
| "search_from prev (c # cs) =
     ((\<not> prev \<and> list_ex (\<lambda>w. word_at w (c # cs)) BREAKING_WORDS)
      \<or> search_from (is_word_char c) cs)"

definition BREAKING_PATTERNS_search :: "string \<Rightarrow> bool" where
  "BREAKING_PATTERNS_search t = search_from False t"

section \<open>fetcher.py: data\<close>

text \<open>A row of the feeds table.\<close>

record feed =
  f_id :: string
  f_name :: string
  f_url :: string
  f_tier :: "int field"
  f_max_items :: "int field"
  f_category :: "string field"

text \<open>
  The structured date of an entry, seen through what
  \<^verbatim>\<open>datetime(*t[:6], tzinfo=timezone.utc)\<close> makes of it: an instant, or an exception.
\<close>

datatype struct_time = Valid_date instant | Invalid_date

text \<open>
  An entry as feedparser gives it; \<open>None\<close> is an absent key. \<open>e_tags\<close> is the empty list
  when the key is absent, and holds the \<^verbatim>\<open>term\<close> of each tag. \<open>e_published_dt\<close> is the
  key \<^verbatim>\<open>_published_dt\<close> that \<^verbatim>\<open>main\<close> writes into the entry.
\<close>

record entry =
  e_link :: "string option"
  e_title :: "string option"
  e_summary :: "string option"
  e_content :: "string option list"
  e_tags :: "string field list"
  e_published_parsed :: "struct_time option"
  e_published_dt :: "instant option"

text \<open>\<^verbatim>\<open>entry.get("link", "")\<close>.\<close>

definition entry_link :: "entry \<Rightarrow> string" where
  "entry_link e = (case e_link e of None \<Rightarrow> [] | Some l \<Rightarrow> l)"

text \<open>A row written to the items table; \<open>published_at\<close> stands for its ISO text.\<close>

record item =
  feed_id :: string
  title :: string
  url :: string
  summary :: string
  published_at :: "instant option"
  score :: real
  category :: "string option"
  source_name :: string

section \<open>fetcher.py: scoring\<close>

text \<open>
  \<^verbatim>\<open>round(x, 2)\<close>: the multiple of 1/100 nearest to \<open>x\<close>, a tie going to the even one.
\<close>

definition py_round2 :: "real \<Rightarrow> real" where
  "py_round2 x =
     (let y = x * 100; f = \<lfloor>y\<rfloor>; d = y - of_int f
      in of_int (if d < 1 / 2 then f else if 1 / 2 < d then f + 1
                 else if even f then f else f + 1) / 100)"

text \<open>The tier weight: \<^verbatim>\<open>TIER_WEIGHTS.get(feed.get("tier", 2), 20)\<close>.\<close>

definition tier_weight :: "feed \<Rightarrow> int" where
  "tier_weight f =
     (case f_tier f of
        Missing \<Rightarrow> (case TIER_WEIGHTS 2 of Some w \<Rightarrow> w | None \<Rightarrow> 20)
      | Null \<Rightarrow> 20
      | Val t \<Rightarrow> (case TIER_WEIGHTS t of Some w \<Rightarrow> w | None \<Rightarrow> 20))"

text \<open>
  The time decay added for an entry published at \<open>published\<close> when the clock reads
  \<open>now\<close>: \<open>age_days\<close> is \<^verbatim>\<open>total_seconds() / 3600 / 24\<close>.
\<close>

definition age_days :: "instant \<Rightarrow> instant \<Rightarrow> real" where
  "age_days now published = real_of_int (now - published) / 1000000 / 3600 / 24"

definition time_decay :: "instant \<Rightarrow> instant option \<Rightarrow> real" where
  "time_decay now published =
     (case published of
        None \<Rightarrow> 0
      | Some p \<Rightarrow> max 0 (1 - age_days now p / real_of_int MAX_AGE_DAYS)
                   * real_of_int TIME_DECAY_MAX)"

text \<open>\<^verbatim>\<open>url_feed_count.get(url, 1) >= 3\<close> with the entry's link as it is (not stripped).\<close>

definition multi_source :: "(string \<rightharpoonup> int) \<Rightarrow> entry \<Rightarrow> int" where
  "multi_source url_feed_count e =
     (let url = entry_link e
      in if (case url_feed_count url of None \<Rightarrow> 1 | Some n \<Rightarrow> n) \<ge> 3
         then MULTI_SOURCE_BUMP else 0)"

text \<open>
  The lowered terms of the tags; a tag whose term is \<^verbatim>\<open>None\<close> has no \<^verbatim>\<open>lower\<close>, and
  the list comprehension raises.
\<close>

fun tag_terms :: "string field list \<Rightarrow> error + string list" where
  "tag_terms [] = Inr []"
| "tag_terms (t # ts) =
     (case t of
        Null \<Rightarrow> Inl AttributeError
      | Missing \<Rightarrow> (case tag_terms ts of Inl e \<Rightarrow> Inl e | Inr r \<Rightarrow> Inr (lower '''' # r))
      | Val s \<Rightarrow> (case tag_terms ts of Inl e \<Rightarrow> Inl e | Inr r \<Rightarrow> Inr (lower s # r)))"

definition metadata_bump :: "string list \<Rightarrow> int" where
  "metadata_bump tags =
     (if list_ex (\<lambda>t. t \<in> set METADATA_TAGS) tags then METADATA_BUMP else 0)"

definition title_bump :: "entry \<Rightarrow> int" where
  "title_bump e =
     (if BREAKING_PATTERNS_search (case e_title e of None \<Rightarrow> '''' | Some t \<Rightarrow> t)
      then TITLE_PATTERN_BUMP else 0)"

definition noise_penalty :: "entry \<Rightarrow> int" where
  "noise_penalty e =
     (let combined = lower ((case e_title e of None \<Rightarrow> '''' | Some t \<Rightarrow> t) @ '' '' @
                            (case e_summary e of None \<Rightarrow> '''' | Some s \<Rightarrow> s))
      in if list_ex (\<lambda>kw. contains kw combined) NOISE_KEYWORDS then KEYWORD_PENALTY else 0)"

text \<open>
  \<^verbatim>\<open>score_item\<close>; \<open>now\<close> is what \<^verbatim>\<open>datetime.now(timezone.utc)\<close> reads inside the call.
  \<open>raw_score\<close> is the sum before rounding, given the lowered tag terms.
\<close>

definition raw_score ::
  "instant \<Rightarrow> entry \<Rightarrow> feed \<Rightarrow> (string \<rightharpoonup> int) \<Rightarrow> string list \<Rightarrow> real" where
  "raw_score now e f url_feed_count tags =
     0 + real_of_int (tier_weight f)
       + time_decay now (e_published_dt e)
       + real_of_int (multi_source url_feed_count e)
       + real_of_int (metadata_bump tags)
       + real_of_int (title_bump e)
       + real_of_int (noise_penalty e)"

definition score_item :: "instant \<Rightarrow> entry \<Rightarrow> feed \<Rightarrow> (string \<rightharpoonup> int) \<Rightarrow> error + real" where
  "score_item now e f url_feed_count =
     (case tag_terms (e_tags e) of
        Inl err \<Rightarrow> Inl err
      | Inr tags \<Rightarrow> Inr (py_round2 (raw_score now e f url_feed_count tags)))"

section \<open>fetcher.py: entries\<close>

definition parse_published :: "entry \<Rightarrow> instant option" where
  "parse_published e =
     (case e_published_parsed e of
        None \<Rightarrow> None
      | Some Invalid_date \<Rightarrow> None
      | Some (Valid_date t) \<Rightarrow> Some t)"

text \<open>
  \<^verbatim>\<open>re.sub(r"<[^>]+>", " ", text)\<close>: a tag is a \<^verbatim>\<open><\<close>, at least one character other
  than \<^verbatim>\<open>>\<close>, and the next \<^verbatim>\<open>>\<close>; the scan goes on after a tag it replaced.
\<close>

function strip_tags :: "string \<Rightarrow> string" where
  "strip_tags [] = []"
| "strip_tags (c # cs) =
     (if c = CHR ''<'' \<and> takeWhile (\<lambda>x. x \<noteq> CHR ''>'') cs \<noteq> []
         \<and> dropWhile (\<lambda>x. x \<noteq> CHR ''>'') cs \<noteq> []
      then CHR '' '' # strip_tags (tl (dropWhile (\<lambda>x. x \<noteq> CHR ''>'') cs))
      else c # strip_tags cs)"
  by pat_completeness auto
termination
proof (relation "measure length")
  fix c :: char and cs :: string
  have "length (tl (dropWhile (\<lambda>x. x \<noteq> CHR ''>'') cs)) \<le> length cs"
    using length_dropWhile_le [of "\<lambda>x. x \<noteq> CHR ''>''" cs] by simp
  then show "(tl (dropWhile (\<lambda>x. x \<noteq> CHR ''>'') cs), c # cs) \<in> measure length"
    by simp
qed simp_all

text \<open>\<^verbatim>\<open>re.sub(r"\s+", " ", text)\<close>: every run of white space becomes one blank.\<close>

function collapse_ws :: "string \<Rightarrow> string" where
  "collapse_ws [] = []"
| "collapse_ws (c # cs) =
     (if is_space c then CHR '' '' # collapse_ws (dropWhile is_space cs)
      else c # collapse_ws cs)"
  by pat_completeness auto
termination
proof (relation "measure length")
  fix c :: char and cs :: string
  show "(dropWhile is_space cs, c # cs) \<in> measure length"
    using length_dropWhile_le [of is_space cs] by simp
qed simp_all

definition summarise :: "entry \<Rightarrow> string" where
  "summarise e =
     (let text0 =
        (case e_summary e of
           Some s \<Rightarrow> if s \<noteq> [] then s
                     else (case e_content e of [] \<Rightarrow> [] | Some v # _ \<Rightarrow> v | None # _ \<Rightarrow> [])
         | None \<Rightarrow> (case e_content e of [] \<Rightarrow> [] | Some v # _ \<Rightarrow> v | None # _ \<Rightarrow> []))
      in take 500 (strip (collapse_ws (strip_tags text0))))"

text \<open>The url of an entry as \<^verbatim>\<open>main\<close> reads it: \<^verbatim>\<open>entry.get("link", "").strip()\<close>.\<close>

definition entry_url :: "entry \<Rightarrow> string" where
  "entry_url e = strip (entry_link e)"

text \<open>\<^verbatim>\<open>parsed.entries[: feed.get("max_items", 10)]\<close>, a Python slice.\<close>

definition capped_entries :: "feed \<Rightarrow> entry list \<Rightarrow> entry list" where
  "capped_entries f es =
     (case f_max_items f of
        Missing \<Rightarrow> take 10 es
      | Null \<Rightarrow> es
      | Val n \<Rightarrow> if 0 \<le> n then take (nat n) es else take (nat (int (length es) + n)) es)"

section \<open>fetcher.py: the two passes of main\<close>

text \<open>
  The first pass, over the entries of one feed and over the feeds. The state is
  \<^verbatim>\<open>url_feed_count\<close> and \<^verbatim>\<open>all_candidates\<close> (the third component of a candidate, the
  parsed feed, is never read and is left out). \<open>fetch\<close> is \<^verbatim>\<open>feedparser.parse\<close>, with
  \<open>None\<close> for an exception.
\<close>

type_synonym candidate = "entry \<times> feed"

fun collect_entries ::
  "instant \<Rightarrow> feed \<Rightarrow> entry list \<Rightarrow> (string \<rightharpoonup> int) \<times> candidate list
     \<Rightarrow> (string \<rightharpoonup> int) \<times> candidate list" where
  "collect_entries cutoff f [] st = st"
| "collect_entries cutoff f (e # es) (url_feed_count, all_candidates) =
     (let url = entry_url e in
      if url = [] then collect_entries cutoff f es (url_feed_count, all_candidates)
      else
        let published = parse_published e;
            e' = e\<lparr>e_published_dt := published\<rparr>
        in if (case published of None \<Rightarrow> False | Some p \<Rightarrow> p < cutoff)
           then collect_entries cutoff f es (url_feed_count, all_candidates)
           else collect_entries cutoff f es
                  (url_feed_count(url \<mapsto>
                     (case url_feed_count url of None \<Rightarrow> 0 | Some n \<Rightarrow> n) + 1),
                   all_candidates @ [(e', f)]))"

fun first_pass ::
  "(feed \<Rightarrow> entry list option) \<Rightarrow> instant \<Rightarrow> feed list
     \<Rightarrow> (string \<rightharpoonup> int) \<times> candidate list \<Rightarrow> (string \<rightharpoonup> int) \<times> candidate list" where
  "first_pass fetch cutoff [] st = st"
| "first_pass fetch cutoff (f # fs) st =
     (case fetch f of
        None \<Rightarrow> first_pass fetch cutoff fs st
      | Some entries \<Rightarrow>
          first_pass fetch cutoff fs (collect_entries cutoff f (capped_entries f entries) st))"

text \<open>The row built for an accepted candidate.\<close>

definition new_item :: "entry \<Rightarrow> feed \<Rightarrow> real \<Rightarrow> item" where
  "new_item e f s =
     \<lparr> feed_id = f_id f,
       title = take 500 (strip (case e_title e of None \<Rightarrow> [] | Some t \<Rightarrow> t)),
       url = entry_url e,
       summary = summarise e,
       published_at = e_published_dt e,
       score = s,
       category = (case f_category f of
                     Missing \<Rightarrow> Some ''Uncategorized'' | Null \<Rightarrow> None | Val c \<Rightarrow> Some c),
       source_name = f_name f \<rparr>"

text \<open>
  The second pass. \<open>clock k\<close> is the \<open>k\<close>-th reading of \<^verbatim>\<open>datetime.now\<close> in the run;
  the state is the number of readings made, \<^verbatim>\<open>seen_urls\<close> and \<^verbatim>\<open>new_items\<close>. An
  exception of \<^verbatim>\<open>score_item\<close> ends the run.
\<close>

fun second_pass ::
  "(nat \<Rightarrow> instant) \<Rightarrow> string set \<Rightarrow> (string \<rightharpoonup> int) \<Rightarrow> candidate list
     \<Rightarrow> nat \<times> string set \<times> item list \<Rightarrow> error + nat \<times> string set \<times> item list" where
  "second_pass clock existing_urls url_feed_count [] st = Inr st"
| "second_pass clock existing_urls url_feed_count ((e, f) # cs) (k, seen_urls, new_items) =
     (let url = entry_url e in
      if url \<in> existing_urls \<or> url \<in> seen_urls
      then second_pass clock existing_urls url_feed_count cs (k, seen_urls, new_items)
      else
        (case score_item (clock k) e f url_feed_count of
           Inl err \<Rightarrow> Inl err
         | Inr s \<Rightarrow>
             second_pass clock existing_urls url_feed_count cs
               (Suc k, insert url seen_urls, new_items @ [new_item e f s])))"

section \<open>fetcher.py: the store phase of main\<close>

datatype store_op =
    Insert "item list"
  | Delete_published_before instant
  | Delete_undated_fetched_before instant

datatype log_line =
    Inserted nat nat
  | Insert_error
  | Done_written nat
  | Old_items_cleaned_up
  | Cleanup_error

text \<open>
  What the run does to the store and what it logs there, in order. A call is recorded
  with its outcome (\<open>True\<close>: it returned, \<open>False\<close>: it raised).
\<close>

datatype event = Store_call store_op bool | Log log_line

text \<open>\<^verbatim>\<open>range(0, n, step)\<close>.\<close>

definition py_range_step :: "nat \<Rightarrow> nat \<Rightarrow> nat list" where
  "py_range_step n step = map (\<lambda>j. j * step) [0 ..< (n + step - 1) div step]"

definition chunk_size :: nat where
  "chunk_size = 100"

text \<open>
  The insert loop over the chunk offsets. \<open>ok k\<close> tells whether the \<open>k\<close>-th call to the
  store in this phase returns; the state is the number of calls made and \<^verbatim>\<open>inserted\<close>.
\<close>

fun insert_loop ::
  "(nat \<Rightarrow> bool) \<Rightarrow> item list \<Rightarrow> nat list \<Rightarrow> nat \<times> nat \<Rightarrow> event list \<times> nat \<times> nat" where
  "insert_loop ok new_items [] st = ([], st)"
| "insert_loop ok new_items (i # is) (k, inserted) =
     (let chunk = take chunk_size (drop i new_items) in
      if ok k
      then (let inserted' = inserted + length chunk;
                (evs, st) = insert_loop ok new_items is (Suc k, inserted')
            in (Store_call (Insert chunk) True # Log (Inserted inserted' (length new_items)) # evs,
                st))
      else (let (evs, st) = insert_loop ok new_items is (Suc k, inserted)
            in (Store_call (Insert chunk) False # Log Insert_error # evs, st)))"

text \<open>The clean-up: both deletes stand in one \<^verbatim>\<open>try\<close> block.\<close>

definition cleanup :: "(nat \<Rightarrow> bool) \<Rightarrow> nat \<Rightarrow> instant \<Rightarrow> event list" where
  "cleanup ok k old_cutoff =
     (if \<not> ok k then [Store_call (Delete_published_before old_cutoff) False, Log Cleanup_error]
      else if \<not> ok (Suc k)
      then [Store_call (Delete_published_before old_cutoff) True,
            Store_call (Delete_undated_fetched_before old_cutoff) False, Log Cleanup_error]
      else [Store_call (Delete_published_before old_cutoff) True,
            Store_call (Delete_undated_fetched_before old_cutoff) True,
            Log Old_items_cleaned_up])"

definition persist :: "(nat \<Rightarrow> bool) \<Rightarrow> instant \<Rightarrow> item list \<Rightarrow> event list" where
  "persist ok now new_items =
     (let (evs, k, inserted) =
            insert_loop ok new_items (py_range_step (length new_items) chunk_size) (0, 0)
      in evs @ [Log (Done_written inserted)]
             @ cleanup ok k (now - timedelta_days MAX_AGE_DAYS))"

section \<open>fetcher.py: main\<close>

text \<open>
  A run: \<open>feeds\<close> and \<open>existing_urls\<close> are what the store returns at the start. The result
  is the batch of new items and the events of the store phase, or the exception that
  ended the run. Of the log, the lines of the store phase are kept.
\<close>

definition url_feed_count_of ::
  "(feed \<Rightarrow> entry list option) \<Rightarrow> (nat \<Rightarrow> instant) \<Rightarrow> feed list \<Rightarrow> string \<rightharpoonup> int" where
  "url_feed_count_of fetch clock feeds =
     fst (first_pass fetch (clock 0 - timedelta_days MAX_AGE_DAYS) feeds (Map.empty, []))"

definition all_candidates_of ::
  "(feed \<Rightarrow> entry list option) \<Rightarrow> (nat \<Rightarrow> instant) \<Rightarrow> feed list \<Rightarrow> candidate list" where
  "all_candidates_of fetch clock feeds =
     snd (first_pass fetch (clock 0 - timedelta_days MAX_AGE_DAYS) feeds (Map.empty, []))"

definition main ::
  "(feed \<Rightarrow> entry list option) \<Rightarrow> (nat \<Rightarrow> instant) \<Rightarrow> (nat \<Rightarrow> bool) \<Rightarrow> feed list \<Rightarrow> string set
     \<Rightarrow> error + item list \<times> event list" where
  "main fetch clock ok feeds existing_urls =
     (if feeds = [] then Inr ([], [])
      else
        (case second_pass clock existing_urls (url_feed_count_of fetch clock feeds)
                (all_candidates_of fetch clock feeds) (1, {}, []) of
           Inl err \<Rightarrow> Inl err
         | Inr (k, seen_urls, new_items) \<Rightarrow>
             if new_items = [] then Inr ([], [])
             else Inr (new_items, persist ok (clock k) new_items)))"

section \<open>Notions used in the statements\<close>

text \<open>
  An entry becomes a candidate when it has a url and is not older than the cutoff;
  \<open>feed_candidates\<close> are the candidates one feed contributes, in the order of its entries.
\<close>

definition is_candidate :: "instant \<Rightarrow> entry \<Rightarrow> bool" where
  "is_candidate cutoff e =
     (entry_url e \<noteq> [] \<and> \<not> (case parse_published e of None \<Rightarrow> False | Some p \<Rightarrow> p < cutoff))"

definition feed_candidates ::
  "(feed \<Rightarrow> entry list option) \<Rightarrow> instant \<Rightarrow> feed \<Rightarrow> candidate list" where
  "feed_candidates fetch cutoff f =
     (case fetch f of
        None \<Rightarrow> []
      | Some entries \<Rightarrow>
          map (\<lambda>e. (e\<lparr>e_published_dt := parse_published e\<rparr>, f))
            (filter (is_candidate cutoff) (capped_entries f entries)))"

definition candidate_url :: "candidate \<Rightarrow> string" where
  "candidate_url c = entry_url (fst c)"

text \<open>
  The candidates whose url is not in \<open>existing\<close> and is not the url of a candidate before
  them in the list.
\<close>

definition first_occurrences :: "string set \<Rightarrow> candidate list \<Rightarrow> candidate list" where
  "first_occurrences existing cs =
     map (\<lambda>i. cs ! i)
       (filter (\<lambda>i. candidate_url (cs ! i) \<notin> existing
                   \<and> candidate_url (cs ! i) \<notin> set (map candidate_url (take i cs)))
          [0 ..< length cs])"

definition unscored :: "item \<Rightarrow> item" where
  "unscored it = it\<lparr>score := 0\<rparr>"

text \<open>
  The correlation count in the words of the specification: the number of distinct feeds
  among the candidates that present the url.
\<close>

definition spec_correlation_count :: "candidate list \<Rightarrow> string \<Rightarrow> nat" where
  "spec_correlation_count cands u =
     length (remdups (map (\<lambda>c. f_id (snd c)) (filter (\<lambda>c. candidate_url c = u) cands)))"

text \<open>The store calls made and the lines logged, in order.\<close>

fun attempted :: "event list \<Rightarrow> store_op list" where
  "attempted [] = []"
| "attempted (Store_call c b # evs) = c # attempted evs"
| "attempted (Log l # evs) = attempted evs"

fun logged :: "event list \<Rightarrow> log_line list" where
  "logged [] = []"
| "logged (Store_call c b # evs) = logged evs"
| "logged (Log l # evs) = l # logged evs"

section \<open>Example inputs\<close>

definition ex_items :: "article list" where
  "ex_items = [\<lparr> a_id = ''id1'', a_title = ''one'', a_source_name = ''s'' \<rparr>,
               \<lparr> a_id = ''id2'', a_title = ''two'', a_source_name = ''s'' \<rparr>,
               \<lparr> a_id = ''id3'', a_title = ''three'', a_source_name = ''s'' \<rparr>]"

definition ex_repr :: "json \<Rightarrow> string" where
  "ex_repr v = ''?''"

definition ex_feed :: "string \<Rightarrow> int field \<Rightarrow> feed" where
  "ex_feed i t = \<lparr> f_id = i, f_name = i, f_url = i, f_tier = t, f_max_items = Missing,
                   f_category = Missing \<rparr>"

definition ex_entry :: "string \<Rightarrow> struct_time option \<Rightarrow> entry" where
  "ex_entry l p = \<lparr> e_link = Some l, e_title = None, e_summary = None, e_content = [],
                    e_tags = [], e_published_parsed = p, e_published_dt = None \<rparr>"

definition one_hour :: int where
  "one_hour = 3600000000"

definition one_day :: int where
  "one_day = 86400000000"

text \<open>Feed A lists the url u twice, feed B lists it once.\<close>

definition ex_fetch :: "feed \<Rightarrow> entry list option" where
  "ex_fetch f =
     (if f_id f = ''A''
      then Some [ex_entry ''u'' None, ex_entry ''v'' None, ex_entry ''u'' None]
      else if f_id f = ''B'' then Some [ex_entry ''u'' None, ex_entry ''w'' None]
      else None)"

text \<open>Every feed lists the url u once, with a blank before it.\<close>

definition ex_fetch_padded :: "feed \<Rightarrow> entry list option" where
  "ex_fetch_padded f = Some [ex_entry '' u'' None]"

text \<open>Every feed lists the url u once, dated one day after the clock.\<close>

definition ex_fetch_future :: "feed \<Rightarrow> entry list option" where
  "ex_fetch_future f = Some [ex_entry ''u'' (Some (Valid_date one_day))]"

definition ex_feeds :: "feed list" where
  "ex_feeds = [ex_feed ''A'' (Val 2), ex_feed ''B'' (Val 2)]"

definition ex_item :: "string \<Rightarrow> string \<Rightarrow> real \<Rightarrow> item" where
  "ex_item i u s = \<lparr> feed_id = i, title = [], url = u, summary = [], published_at = None,
                     score = s, category = Some ''Uncategorized'', source_name = i \<rparr>"

definition clock0 :: "nat \<Rightarrow> instant" where
  "clock0 k = 0"

definition all_ok :: "nat \<Rightarrow> bool" where
  "all_ok k = True"

text \<open>Every call to the store returns but call \<open>n\<close>.\<close>

definition ok_except :: "nat \<Rightarrow> nat \<Rightarrow> bool" where
  "ok_except n k = (k \<noteq> n)"

definition ex_cutoff :: instant where
  "ex_cutoff = - 2592000000000"

section \<open>Properties of digest.py\<close>

lemma validate_picks_survivors:
  "fst (validate_picks repr items ps) = List.map_filter (\<lambda>p. fst (validate_pick repr items p)) ps"
  by (induction ps) (auto simp: List.map_filter_simps split: prod.splits option.splits)

text \<open>
  C6: for a candidate list of length N, a pick whose index is missing, 0, N + 1, the
  string "2", any value that is not an integer, or an integer outside 1..N is dropped with
  a warning; a pick whose index i lies in 1..N is accepted and resolves to the identity of
  candidate i - 1, in particular for i = 1 and i = N when there is a candidate at all; the
  picks kept from a list are the accepted ones, in order.
\<close>

theorem pick_validation:
  "(map_of d ''index'' \<in> {None, Some (JInt 0), Some (JInt (int (length items) + 1)),
                            Some (JStr ''2'')}
      \<longrightarrow> validate_pick repr items (JDict d)
            = (None, [Skipping_pick_with_invalid_index (dict_get d ''index'')]))
   \<and> (\<forall>v. map_of d ''index'' = Some v \<and> as_int v = None
      \<longrightarrow> validate_pick repr items (JDict d)
            = (None, [Skipping_pick_with_invalid_index v]))
   \<and> (\<forall>i. map_of d ''index'' = Some (JInt i) \<and> (i < 1 \<or> int (length items) < i)
      \<longrightarrow> validate_pick repr items (JDict d)
            = (None, [Skipping_pick_with_invalid_index (JInt i)]))
   \<and> (\<forall>i. map_of d ''index'' = Some (JInt i) \<and> 1 \<le> i \<and> i \<le> int (length items)
      \<longrightarrow> validate_pick repr items (JDict d)
            = (Some \<lparr> item_id = a_id (items ! nat (i - 1)), reason = pick_reason repr d \<rparr>, []))
   \<and> (items \<noteq> [] \<and> map_of d ''index'' = Some (JInt 1)
      \<longrightarrow> validate_pick repr items (JDict d)
            = (Some \<lparr> item_id = a_id (items ! 0), reason = pick_reason repr d \<rparr>, []))
   \<and> (items \<noteq> [] \<and> map_of d ''index'' = Some (JInt (int (length items)))
      \<longrightarrow> validate_pick repr items (JDict d)
            = (Some \<lparr> item_id = a_id (items ! (length items - 1)),
                      reason = pick_reason repr d \<rparr>, []))
   \<and> (\<forall>ps. fst (validate_picks repr items ps)
           = List.map_filter (\<lambda>p. fst (validate_pick repr items p)) ps)"
proof -
  have nat_last: "nat (int (length items) - 1) = length items - 1"
    by simp
  have pos: "1 \<le> int (length items)" if "items \<noteq> []"
    using that by (cases items) simp_all
  show ?thesis
    using pos
    by (auto simp: validate_pick_def dict_get_def Let_def nat_last validate_picks_survivors)
qed

theorem pick_validation_witness:
  "ex_items \<noteq> []
   \<and> validate_pick ex_repr ex_items (JDict [(''reason'', JStr ''r'')])
       = (None, [Skipping_pick_with_invalid_index JNull])
   \<and> validate_pick ex_repr ex_items (JDict [(''index'', JInt 0)])
       = (None, [Skipping_pick_with_invalid_index (JInt 0)])
   \<and> validate_pick ex_repr ex_items (JDict [(''index'', JInt 4)])
       = (None, [Skipping_pick_with_invalid_index (JInt 4)])
   \<and> validate_pick ex_repr ex_items (JDict [(''index'', JInt (- 1))])
       = (None, [Skipping_pick_with_invalid_index (JInt (- 1))])
   \<and> validate_pick ex_repr ex_items (JDict [(''index'', JStr ''2'')])
       = (None, [Skipping_pick_with_invalid_index (JStr ''2'')])
   \<and> validate_pick ex_repr ex_items (JDict [(''index'', JFloat 2)])
       = (None, [Skipping_pick_with_invalid_index (JFloat 2)])
   \<and> validate_pick ex_repr ex_items (JDict [(''index'', JInt 1), (''reason'', JStr ''r'')])
       = (Some \<lparr> item_id = ''id1'', reason = ''r'' \<rparr>, [])
   \<and> validate_pick ex_repr ex_items (JDict [(''index'', JInt 2)])
       = (Some \<lparr> item_id = ''id2'', reason = '''' \<rparr>, [])
   \<and> validate_pick ex_repr ex_items (JDict [(''index'', JInt 3)])
       = (Some \<lparr> item_id = ''id3'', reason = '''' \<rparr>, [])"
proof -
  have ne: "ex_items \<noteq> []"
    by (simp add: ex_items_def)
  have len: "int (length ex_items) = 3"
    by (simp add: ex_items_def)
  note t = pick_validation [where items = ex_items and repr = ex_repr, unfolded len]
  have "validate_pick ex_repr ex_items (JDict [(''reason'', JStr ''r'')])
          = (None, [Skipping_pick_with_invalid_index JNull])"
    using t [of "[(''reason'', JStr ''r'')]"] by (simp add: dict_get_def)
  moreover have "validate_pick ex_repr ex_items (JDict [(''index'', JInt 0)])
          = (None, [Skipping_pick_with_invalid_index (JInt 0)])"
    using t [of "[(''index'', JInt 0)]"] by (simp add: dict_get_def)
  moreover have "validate_pick ex_repr ex_items (JDict [(''index'', JInt 4)])
          = (None, [Skipping_pick_with_invalid_index (JInt 4)])"
    using t [of "[(''index'', JInt 4)]"] by (simp add: dict_get_def)
  moreover have "validate_pick ex_repr ex_items (JDict [(''index'', JInt (- 1))])
          = (None, [Skipping_pick_with_invalid_index (JInt (- 1))])"
    using t [of "[(''index'', JInt (- 1))]"] by simp
  moreover have "validate_pick ex_repr ex_items (JDict [(''index'', JStr ''2'')])
          = (None, [Skipping_pick_with_invalid_index (JStr ''2'')])"
    using t [of "[(''index'', JStr ''2'')]"] by (simp add: dict_get_def)
  moreover have "validate_pick ex_repr ex_items (JDict [(''index'', JFloat 2)])
          = (None, [Skipping_pick_with_invalid_index (JFloat 2)])"
    using t [of "[(''index'', JFloat 2)]"] by simp
  moreover have "validate_pick ex_repr ex_items
                   (JDict [(''index'', JInt 1), (''reason'', JStr ''r'')])
          = (Some \<lparr> item_id = ''id1'', reason = ''r'' \<rparr>, [])"
    using t [of "[(''index'', JInt 1), (''reason'', JStr ''r'')]"]
    by (simp add: ex_items_def pick_reason_def)
  moreover have "validate_pick ex_repr ex_items (JDict [(''index'', JInt 2)])
          = (Some \<lparr> item_id = ''id2'', reason = '''' \<rparr>, [])"
    using t [of "[(''index'', JInt 2)]"]
    by (simp add: ex_items_def pick_reason_def)
  moreover have "validate_pick ex_repr ex_items (JDict [(''index'', JInt 3)])
          = (Some \<lparr> item_id = ''id3'', reason = '''' \<rparr>, [])"
    using t [of "[(''index'', JInt 3)]"]
    by (simp add: ex_items_def pick_reason_def)
  ultimately show ?thesis
    using ne by blast
qed

text \<open>
  C10: for a candidate list with at least one item, a pick whose index is the boolean
  true passes validation and resolves to the first candidate; the boolean false is
  dropped as out of range.
\<close>

theorem boolean_index:
  assumes "items \<noteq> []"
  shows
    "(map_of d ''index'' = Some (JBool True)
        \<longrightarrow> validate_pick repr items (JDict d)
              = (Some \<lparr> item_id = a_id (hd items), reason = pick_reason repr d \<rparr>, []))
     \<and> (map_of d ''index'' = Some (JBool False)
        \<longrightarrow> validate_pick repr items (JDict d)
              = (None, [Skipping_pick_with_invalid_index (JBool False)]))"
  using assms
  by (cases items) (auto simp: validate_pick_def dict_get_def Let_def)

theorem boolean_index_witness:
  "ex_items \<noteq> []
   \<and> validate_pick ex_repr ex_items (JDict [(''index'', JBool True)])
       = (Some \<lparr> item_id = ''id1'', reason = '''' \<rparr>, [])
   \<and> validate_pick ex_repr ex_items (JDict [(''index'', JBool False)])
       = (None, [Skipping_pick_with_invalid_index (JBool False)])"
proof -
  have ne: "ex_items \<noteq> []"
    by (simp add: ex_items_def)
  show ?thesis
    using ne boolean_index [OF ne, of "[(''index'', JBool True)]" ex_repr]
      boolean_index [OF ne, of "[(''index'', JBool False)]" ex_repr]
    by (simp add: ex_items_def pick_reason_def)
qed

text \<open>
  C8: for a response that is a JSON object, \<^verbatim>\<open>write_digest\<close> always reaches the insert,
  with the picks that survive validation (possibly none); when the picks key is absent or
  does not hold a list, the pick list is empty and the row written has the overview and
  no picks.
\<close>

theorem picks_not_a_list:
  "(\<exists>row ws. write_digest repr now uid items (JDict d) = Inr (row, ws)
        \<and> user_id row = uid
        \<and> overview row = (case map_of d ''overview'' of None \<Rightarrow> JStr '''' | Some v \<Rightarrow> v)
        \<and> picks row = List.map_filter (\<lambda>p. fst (validate_pick repr items p)) (raw_picks_of d))
   \<and> ((\<forall>ps. map_of d ''picks'' \<noteq> Some (JList ps))
        \<longrightarrow> raw_picks_of d = []
          \<and> write_digest repr now uid items (JDict d)
            = Inr (\<lparr> user_id = uid,
                      overview = (case map_of d ''overview'' of None \<Rightarrow> JStr '''' | Some v \<Rightarrow> v),
                      picks = [],
                      time_window_hours = 24,
                      generated_at = now \<rparr>, []))"
proof -
  have a: "\<exists>row ws. write_digest repr now uid items (JDict d) = Inr (row, ws)
        \<and> user_id row = uid
        \<and> overview row = (case map_of d ''overview'' of None \<Rightarrow> JStr '''' | Some v \<Rightarrow> v)
        \<and> picks row = List.map_filter (\<lambda>p. fst (validate_pick repr items p)) (raw_picks_of d)"
    using validate_picks_survivors [of repr items "raw_picks_of d"]
    by (simp add: write_digest_def case_prod_beta)
  have b: "raw_picks_of d = []" if "\<forall>ps. map_of d ''picks'' \<noteq> Some (JList ps)"
    using that by (auto simp: raw_picks_of_def dict_get_def split: option.splits json.splits)
  show ?thesis
    using a b by (simp add: write_digest_def TIME_WINDOW_HOURS_def)
qed

theorem picks_not_a_list_witness:
  "(\<forall>ps. map_of [(''overview'', JStr ''news''), (''picks'', JStr ''1, 2'')] ''picks''
            \<noteq> Some (JList ps))
   \<and> write_digest ex_repr 7 ''u1'' ex_items
        (JDict [(''overview'', JStr ''news''), (''picks'', JStr ''1, 2'')])
     = Inr (\<lparr> user_id = ''u1'', overview = JStr ''news'', picks = [],
               time_window_hours = 24, generated_at = 7 \<rparr>, [])"
proof -
  have h: "\<forall>ps. map_of [(''overview'', JStr ''news''), (''picks'', JStr ''1, 2'')] ''picks''
            \<noteq> Some (JList ps)"
    by simp
  show ?thesis
    using h picks_not_a_list [of ex_repr 7 "''u1''" ex_items
        "[(''overview'', JStr ''news''), (''picks'', JStr ''1, 2'')]"]
    by simp
qed

lemma digest_for_user_written:
  "digest_for_user repr now uid items result = Inr (Some written)
   \<Longrightarrow> items \<noteq> [] \<and> (\<exists>r. result = Some r \<and> truthy r
                           \<and> write_digest repr now uid items r = Inr written)"
  by (auto simp: digest_for_user_def split: if_splits option.splits sum.splits)

lemma digest_for_user_object:
  "items \<noteq> [] \<Longrightarrow> d \<noteq> []
   \<Longrightarrow> digest_for_user repr now uid items (Some (JDict d))
       = (case write_digest repr now uid items (JDict d) of
            Inl err \<Rightarrow> Inl err | Inr written \<Rightarrow> Inr (Some written))"
  by (simp add: digest_for_user_def)

section \<open>Properties of the scoring\<close>


lemma py_round2_grid: "\<exists>k::int. py_round2 x = real_of_int k / 100"
  by (simp add: py_round2_def Let_def)

lemma py_round2_near: "\<bar>py_round2 x - x\<bar> \<le> 1 / 200"
proof -
  define y where "y = x * 100"
  define f where "f = \<lfloor>y\<rfloor>"
  define d where "d = y - of_int f"
  have d0: "0 \<le> d" and d1: "d < 1"
    unfolding d_def f_def by linarith+
  have x: "x = (of_int f + d) / 100"
    unfolding d_def y_def by simp
  define k where "k = (if d < 1 / 2 then f else if 1 / 2 < d then f + 1
                 else if even f then f else f + 1)"
  have r: "py_round2 x = of_int k / 100"
    unfolding py_round2_def Let_def k_def d_def f_def y_def by simp
  have "\<bar>real_of_int k / 100 - (of_int f + d) / 100\<bar> \<le> 1 / 200"
    using d0 d1 by (auto simp: k_def abs_if field_simps)
  then show ?thesis
    unfolding r by (subst x) simp
qed

lemma time_decay_absent: "time_decay now None = 0"
  by (simp add: time_decay_def)

lemma time_decay_formula:
  "time_decay now (Some p) = max 0 (1 - age_days now p / 30) * 50"
  by (simp add: time_decay_def MAX_AGE_DAYS_def TIME_DECAY_MAX_def)

lemma time_decay_nonneg: "0 \<le> time_decay now published"
  by (simp add: time_decay_def TIME_DECAY_MAX_def split: option.splits)

lemma time_decay_antimono:
  "age_days now p \<le> age_days now' p' \<Longrightarrow> time_decay now' (Some p') \<le> time_decay now (Some p)"
  by (simp add: time_decay_formula max_def)

lemma time_decay_le_50:
  "0 \<le> age_days now p \<Longrightarrow> time_decay now (Some p) \<le> 50"
  by (simp add: time_decay_formula max_def)

lemma time_decay_30_days:
  "age_days now p = 30 \<Longrightarrow> time_decay now (Some p) = 0"
  by (simp add: time_decay_formula)

text \<open>
  C3: the recency contribution is \<open>max 0 (1 - age_days / 30) * 50\<close>, is never negative,
  does not grow with the age, is 0 at 30 days and for an absent timestamp, and is at most 50
  for an entry that is not dated in the future (the lemmas above). It is not clamped to
  50: for an entry dated one day after the clock it is 155/3, and with the tier weight 20
  the score of that entry is 71.67.
\<close>

theorem time_decay_future_entry:
  "age_days 0 one_day = - 1
   \<and> time_decay 0 (Some one_day) = 155 / 3
   \<and> 50 < time_decay 0 (Some one_day)
   \<and> score_item 0 (ex_entry ''u'' None\<lparr>e_published_dt := Some one_day\<rparr>) (ex_feed ''A'' (Val 2))
        Map.empty = Inr (7167 / 100)
   \<and> main ex_fetch_future clock0 all_ok [ex_feed ''A'' (Val 2)] {}
       = Inr ([(ex_item ''A'' ''u'' (7167 / 100))\<lparr>published_at := Some one_day\<rparr>],
              [Store_call (Insert [(ex_item ''A'' ''u'' (7167 / 100))
                                     \<lparr>published_at := Some one_day\<rparr>]) True,
               Log (Inserted 1 1), Log (Done_written 1),
               Store_call (Delete_published_before ex_cutoff) True,
               Store_call (Delete_undated_fetched_before ex_cutoff) True,
               Log Old_items_cleaned_up])"
proof -
  have a: "age_days 0 one_day = - 1"
    by (simp add: age_days_def one_day_def)
  have t: "time_decay 0 (Some one_day) = 155 / 3"
    by (simp add: time_decay_formula a)
  have s: "score_item 0 (ex_entry ''u'' None\<lparr>e_published_dt := Some one_day\<rparr>)
             (ex_feed ''A'' (Val 2)) Map.empty = Inr (7167 / 100)"
    by code_simp
  have m: "main ex_fetch_future clock0 all_ok [ex_feed ''A'' (Val 2)] {}
       = Inr ([(ex_item ''A'' ''u'' (7167 / 100))\<lparr>published_at := Some one_day\<rparr>],
              [Store_call (Insert [(ex_item ''A'' ''u'' (7167 / 100))
                                     \<lparr>published_at := Some one_day\<rparr>]) True,
               Log (Inserted 1 1), Log (Done_written 1),
               Store_call (Delete_published_before ex_cutoff) True,
               Store_call (Delete_undated_fetched_before ex_cutoff) True,
               Log Old_items_cleaned_up])"
    by code_simp
  show ?thesis
    using a t s m by simp
qed

text \<open>
  C9: with the clock reading fixed, the score is a function of the entry, of the tier of
  the feed and of the count stored for the entry's link: two calls that agree on these
  return the same result. A score returned is a multiple of 1/100, the one nearest to the
  sum of the signals.
\<close>

theorem score_item_deterministic:
  assumes "f_tier f' = f_tier f"
    and "cnt' (entry_link e) = cnt (entry_link e)"
  shows "score_item now e f' cnt' = score_item now e f cnt
     \<and> (\<forall>s. score_item now e f cnt = Inr s \<longrightarrow>
          (\<exists>k::int. s = real_of_int k / 100)
          \<and> (\<exists>tags. tag_terms (e_tags e) = Inr tags
                \<and> \<bar>s - raw_score now e f cnt tags\<bar> \<le> 1 / 200))"
proof -
  have tw: "tier_weight f' = tier_weight f"
    using assms(1) by (simp add: tier_weight_def)
  have ms: "multi_source cnt' e = multi_source cnt e"
    using assms(2) by (simp add: multi_source_def)
  have eq: "score_item now e f' cnt' = score_item now e f cnt"
    by (simp add: score_item_def raw_score_def tw ms split: sum.splits)
  have rounded: "(\<exists>k::int. s = real_of_int k / 100)
          \<and> (\<exists>tags. tag_terms (e_tags e) = Inr tags
                \<and> \<bar>s - raw_score now e f cnt tags\<bar> \<le> 1 / 200)"
    if "score_item now e f cnt = Inr s" for s
  proof (cases "tag_terms (e_tags e)")
    case (Inl err)
    with that show ?thesis by (simp add: score_item_def)
  next
    case (Inr tags)
    with that have s: "s = py_round2 (raw_score now e f cnt tags)"
      by (simp add: score_item_def)
    show ?thesis
      using Inr py_round2_grid [of "raw_score now e f cnt tags"]
        py_round2_near [of "raw_score now e f cnt tags"]
      unfolding s by simp
  qed
  show ?thesis
    using eq rounded by blast
qed

theorem score_item_deterministic_witness:
  "f_tier (ex_feed ''B'' (Val 1)) = f_tier (ex_feed ''A'' (Val 1))
   \<and> entry_link (ex_entry ''u'' None\<lparr>e_published_dt := Some 0\<rparr>) = ''u''
   \<and> [''u'' \<mapsto> 3, ''v'' \<mapsto> 5] ''u'' = [''u'' \<mapsto> (3::int)] ''u''
   \<and> score_item one_hour (ex_entry ''u'' None\<lparr>e_published_dt := Some 0\<rparr>)
        (ex_feed ''A'' (Val 1)) [''u'' \<mapsto> 3] = Inr (12993 / 100)
   \<and> score_item one_hour (ex_entry ''u'' None\<lparr>e_published_dt := Some 0\<rparr>)
        (ex_feed ''B'' (Val 1)) [''u'' \<mapsto> 3, ''v'' \<mapsto> 5] = Inr (12993 / 100)"
proof -
  have t: "f_tier (ex_feed ''B'' (Val 1)) = f_tier (ex_feed ''A'' (Val 1))"
    by (simp add: ex_feed_def)
  have c: "[''u'' \<mapsto> 3, ''v'' \<mapsto> 5]
             (entry_link (ex_entry ''u'' None\<lparr>e_published_dt := Some 0\<rparr>))
           = [''u'' \<mapsto> (3::int)]
               (entry_link (ex_entry ''u'' None\<lparr>e_published_dt := Some 0\<rparr>))"
    by (simp add: ex_entry_def entry_link_def)
  have l: "entry_link (ex_entry ''u'' None\<lparr>e_published_dt := Some 0\<rparr>) = ''u''"
    by (simp add: ex_entry_def entry_link_def)
  have s: "score_item one_hour (ex_entry ''u'' None\<lparr>e_published_dt := Some 0\<rparr>)
        (ex_feed ''A'' (Val 1)) [''u'' \<mapsto> 3] = Inr (12993 / 100)"
    by code_simp
  show ?thesis
    using t c l s
      score_item_deterministic [where f' = "ex_feed ''B'' (Val 1)" and f = "ex_feed ''A'' (Val 1)"
        and cnt' = "[''u'' \<mapsto> 3, ''v'' \<mapsto> 5]" and cnt = "[''u'' \<mapsto> 3]"
        and e = "ex_entry ''u'' None\<lparr>e_published_dt := Some 0\<rparr>" and now = one_hour]
    by simp
qed

section \<open>Properties of the two passes\<close>

lemma entry_url_published_dt [simp]: "entry_url (e\<lparr>e_published_dt := p\<rparr>) = entry_url e"
  by (simp add: entry_url_def entry_link_def)

lemma collect_entries_candidates:
  "snd (collect_entries cutoff f es (cnt, cands))
   = cands @ map (\<lambda>e. (e\<lparr>e_published_dt := parse_published e\<rparr>, f))
               (filter (is_candidate cutoff) es)"
  by (induction es arbitrary: cnt cands) (auto simp: Let_def is_candidate_def)

lemma first_pass_candidates:
  "snd (first_pass fetch cutoff fs st)
   = snd st @ concat (map (feed_candidates fetch cutoff) fs)"
proof (induction fs arbitrary: st)
  case Nil
  then show ?case by simp
next
  case (Cons f fs)
  obtain cnt cands where st: "st = (cnt, cands)"
    by (cases st)
  show ?case
    by (simp add: Cons.IH st feed_candidates_def collect_entries_candidates
        split: option.splits)
qed

lemma all_candidates_in_feed_order:
  "all_candidates_of fetch clock feeds
   = concat (map (feed_candidates fetch (clock 0 - timedelta_days MAX_AGE_DAYS)) feeds)"
  by (simp add: all_candidates_of_def first_pass_candidates)

lemma first_occurrences_Nil [simp]: "first_occurrences S [] = []"
  by (simp add: first_occurrences_def)

lemma map_filter_upt_cong:
  "(\<And>i. i < n \<Longrightarrow> P i = Q i) \<Longrightarrow> map f (filter P [0 ..< n]) = map f (filter Q [0 ..< n])"
  by (rule arg_cong [where f = "map f"], rule filter_cong) auto

lemma first_occurrences_Cons:
  "first_occurrences S (c # cs)
   = (if candidate_url c \<in> S then first_occurrences S cs
      else c # first_occurrences (insert (candidate_url c) S) cs)"
proof -
  have upt: "[0 ..< length (c # cs)] = 0 # map Suc [0 ..< length cs]"
    by (simp add: upt_conv_Cons map_Suc_upt del: upt_Suc)
  show ?thesis
    unfolding first_occurrences_def upt
    by (auto simp: filter_map o_def intro!: map_filter_upt_cong)
qed

lemma second_pass_first_occurrences:
  "second_pass clock ex cnt cs (k, seen, acc) = Inr (k', seen', items)
   \<Longrightarrow> map unscored items
       = map unscored acc @ map (\<lambda>(e, f). new_item e f 0) (first_occurrences (ex \<union> seen) cs)"
proof (induction cs arbitrary: k seen acc)
  case Nil
  then show ?case by simp
next
  case (Cons c cs)
  obtain e f where c: "c = (e, f)"
    by (cases c)
  show ?case
  proof (cases "entry_url e \<in> ex \<or> entry_url e \<in> seen")
    case True
    with Cons.prems have "second_pass clock ex cnt cs (k, seen, acc) = Inr (k', seen', items)"
      by (simp add: c)
    from Cons.IH [OF this] True show ?thesis
      by (simp add: c first_occurrences_Cons candidate_url_def)
  next
    case False
    with Cons.prems obtain s where
      s: "score_item (clock k) e f cnt = Inr s" and
      rest: "second_pass clock ex cnt cs (Suc k, insert (entry_url e) seen, acc @ [new_item e f s])
             = Inr (k', seen', items)"
      by (auto simp: c Let_def split: sum.splits)
    from Cons.IH [OF rest] False show ?thesis
      by (simp add: c first_occurrences_Cons candidate_url_def unscored_def new_item_def)
  qed
qed

lemma second_pass_append:
  "second_pass clock ex cnt (cs @ ds) st
   = (case second_pass clock ex cnt cs st of Inl err \<Rightarrow> Inl err
      | Inr st' \<Rightarrow> second_pass clock ex cnt ds st')"
proof (induction cs arbitrary: st)
  case Nil
  then show ?case by simp
next
  case (Cons c cs)
  obtain e f where c: "c = (e, f)"
    by (cases c)
  obtain k seen acc where st: "st = (k, seen, acc)"
    by (cases st)
  show ?case
    by (simp add: c st Cons.IH Let_def split: sum.splits)
qed

lemma second_pass_extends:
  "second_pass clock ex cnt cs (k, seen, acc) = Inr (k', seen', items) \<Longrightarrow> prefix acc items"
proof (induction cs arbitrary: k seen acc)
  case Nil
  then show ?case by simp
next
  case (Cons c cs)
  obtain e f where c: "c = (e, f)"
    by (cases c)
  show ?case
  proof (cases "entry_url e \<in> ex \<or> entry_url e \<in> seen")
    case True
    with Cons.prems have "second_pass clock ex cnt cs (k, seen, acc) = Inr (k', seen', items)"
      by (simp add: c)
    from Cons.IH [OF this] show ?thesis .
  next
    case False
    with Cons.prems obtain s where
      rest: "second_pass clock ex cnt cs (Suc k, insert (entry_url e) seen, acc @ [new_item e f s])
             = Inr (k', seen', items)"
      by (auto simp: c Let_def split: sum.splits)
    from Cons.IH [OF rest] show ?thesis
      by (rule append_prefixD)
  qed
qed

lemma main_batch:
  assumes "main fetch clock ok feeds existing = Inr (batch, evs)"
  shows "\<exists>k seen. second_pass clock existing (url_feed_count_of fetch clock feeds)
                (all_candidates_of fetch clock feeds) (1, {}, []) = Inr (k, seen, batch)"
proof (cases "feeds = []")
  case True
  with assms show ?thesis
    by (simp add: main_def all_candidates_of_def)
next
  case False
  with assms show ?thesis
    by (auto simp: main_def split: sum.splits if_splits)
qed

lemma first_occurrences_not_in:
  "candidate_url ` set (first_occurrences S cs) \<inter> S = {}"
  by (auto simp: first_occurrences_def)

lemma first_occurrences_distinct:
  "distinct (map candidate_url (first_occurrences S cs))"
proof (induction cs arbitrary: S)
  case Nil
  then show ?case by simp
next
  case (Cons c cs)
  show ?case
    using Cons.IH first_occurrences_not_in [of "insert (candidate_url c) S" cs]
    by (auto simp: first_occurrences_Cons)
qed

lemma url_new_item: "url (new_item e f s) = candidate_url (e, f)"
  by (simp add: new_item_def candidate_url_def)

lemma main_batch_urls:
  assumes "main fetch clock ok feeds existing = Inr (batch, evs)"
  shows "map url batch
         = map candidate_url (first_occurrences existing (all_candidates_of fetch clock feeds))"
proof -
  from main_batch [OF assms] obtain k seen where
    "second_pass clock existing (url_feed_count_of fetch clock feeds)
       (all_candidates_of fetch clock feeds) (1, {}, []) = Inr (k, seen, batch)"
    by blast
  from second_pass_first_occurrences [OF this]
  have "map unscored batch
        = map (\<lambda>(e, f). new_item e f 0)
            (first_occurrences existing (all_candidates_of fetch clock feeds))"
    by simp
  then have "map (url \<circ> unscored) batch
        = map (url \<circ> (\<lambda>(e, f). new_item e f 0))
            (first_occurrences existing (all_candidates_of fetch clock feeds))"
    by (metis map_map)
  moreover have "url \<circ> unscored = url"
    by (rule ext) (simp add: unscored_def)
  moreover have "url \<circ> (\<lambda>(e, f). new_item e f 0) = candidate_url"
    by (rule ext) (simp add: url_new_item split: prod.splits)
  ultimately show ?thesis
    by simp
qed

text \<open>
  C4: no item of the batch of new items has a url of the set of persisted urls loaded at
  the start of the run, whatever its score.
\<close>

theorem persisted_urls_excluded:
  assumes "main fetch clock ok feeds existing_urls = Inr (batch, evs)"
  shows "url ` set batch \<inter> existing_urls = {}"
proof -
  have "url ` set batch = set (map url batch)"
    by simp
  also have "\<dots> = candidate_url `
      set (first_occurrences existing_urls (all_candidates_of fetch clock feeds))"
    by (simp add: main_batch_urls [OF assms])
  finally show ?thesis
    using first_occurrences_not_in [of existing_urls "all_candidates_of fetch clock feeds"]
    by simp
qed

theorem persisted_urls_excluded_witness:
  "main ex_fetch clock0 all_ok ex_feeds {''u''}
     = Inr ([ex_item ''A'' ''v'' 20, ex_item ''B'' ''w'' 20],
            [Store_call (Insert [ex_item ''A'' ''v'' 20, ex_item ''B'' ''w'' 20]) True,
             Log (Inserted 2 2), Log (Done_written 2),
             Store_call (Delete_published_before ex_cutoff) True,
             Store_call (Delete_undated_fetched_before ex_cutoff) True,
             Log Old_items_cleaned_up])
   \<and> url ` set [ex_item ''A'' ''v'' 20, ex_item ''B'' ''w'' 20] \<inter> {''u''} = {}"
proof -
  have run: "main ex_fetch clock0 all_ok ex_feeds {''u''}
     = Inr ([ex_item ''A'' ''v'' 20, ex_item ''B'' ''w'' 20],
            [Store_call (Insert [ex_item ''A'' ''v'' 20, ex_item ''B'' ''w'' 20]) True,
             Log (Inserted 2 2), Log (Done_written 2),
             Store_call (Delete_published_before ex_cutoff) True,
             Store_call (Delete_undated_fetched_before ex_cutoff) True,
             Log Old_items_cleaned_up])"
    by code_simp
  show ?thesis
    using run persisted_urls_excluded [OF run] by simp
qed

text \<open>
  C5: the candidates are listed feed by feed and, within a feed, in the order of its
  entries; the batch is made of the candidates whose url is not persisted and is not the
  url of an earlier candidate, in that order (each item is the row of that candidate, up to
  its score), so no two items share a url; and the items accepted after any initial part of
  the candidates are still at the head of the final batch.
\<close>

theorem first_occurrence_wins:
  assumes "main fetch clock ok feeds existing_urls = Inr (batch, evs)"
  shows "all_candidates_of fetch clock feeds
           = concat (map (feed_candidates fetch (clock 0 - timedelta_days MAX_AGE_DAYS)) feeds)
     \<and> map unscored batch
           = map (\<lambda>(e, f). new_item e f 0)
               (first_occurrences existing_urls (all_candidates_of fetch clock feeds))
     \<and> distinct (map url batch)
     \<and> (\<forall>cs ds. all_candidates_of fetch clock feeds = cs @ ds \<longrightarrow>
           (\<exists>k seen_urls new_items.
              second_pass clock existing_urls (url_feed_count_of fetch clock feeds) cs (1, {}, [])
                = Inr (k, seen_urls, new_items)
              \<and> prefix new_items batch))"
proof -
  from main_batch [OF assms] obtain k seen where
    run: "second_pass clock existing_urls (url_feed_count_of fetch clock feeds)
       (all_candidates_of fetch clock feeds) (1, {}, []) = Inr (k, seen, batch)"
    by blast
  have firsts: "map unscored batch
        = map (\<lambda>(e, f). new_item e f 0)
            (first_occurrences existing_urls (all_candidates_of fetch clock feeds))"
    using second_pass_first_occurrences [OF run] by simp
  have dist: "distinct (map url batch)"
    by (simp add: main_batch_urls [OF assms] first_occurrences_distinct)
  have kept: "\<exists>k seen_urls new_items.
              second_pass clock existing_urls (url_feed_count_of fetch clock feeds) cs (1, {}, [])
                = Inr (k, seen_urls, new_items)
              \<and> prefix new_items batch"
    if split: "all_candidates_of fetch clock feeds = cs @ ds" for cs ds
  proof (cases "second_pass clock existing_urls (url_feed_count_of fetch clock feeds) cs
                  (1, {}, [])")
    case (Inl err)
    with run show ?thesis
      by (simp add: split second_pass_append)
  next
    case (Inr st)
    obtain k1 seen1 items1 where st: "st = (k1, seen1, items1)"
      by (cases st)
    from run Inr have "second_pass clock existing_urls (url_feed_count_of fetch clock feeds) ds
                         (k1, seen1, items1) = Inr (k, seen, batch)"
      by (simp add: split second_pass_append st)
    from second_pass_extends [OF this] Inr st show ?thesis
      by simp
  qed
  show ?thesis
    using all_candidates_in_feed_order firsts dist kept by blast
qed

theorem first_occurrence_wins_witness:
  "main ex_fetch clock0 all_ok ex_feeds {}
     = Inr ([ex_item ''A'' ''u'' 60, ex_item ''A'' ''v'' 20, ex_item ''B'' ''w'' 20],
            [Store_call (Insert [ex_item ''A'' ''u'' 60, ex_item ''A'' ''v'' 20,
                                 ex_item ''B'' ''w'' 20]) True,
             Log (Inserted 3 3), Log (Done_written 3),
             Store_call (Delete_published_before ex_cutoff) True,
             Store_call (Delete_undated_fetched_before ex_cutoff) True,
             Log Old_items_cleaned_up])
   \<and> map candidate_url (all_candidates_of ex_fetch clock0 ex_feeds)
       = [''u'', ''v'', ''u'', ''u'', ''w'']
   \<and> map (\<lambda>c. f_id (snd c)) (all_candidates_of ex_fetch clock0 ex_feeds)
       = [''A'', ''A'', ''A'', ''B'', ''B'']
   \<and> map unscored [ex_item ''A'' ''u'' 60, ex_item ''A'' ''v'' 20, ex_item ''B'' ''w'' 20]
       = map (\<lambda>(e, f). new_item e f 0)
           (first_occurrences {} (all_candidates_of ex_fetch clock0 ex_feeds))
   \<and> distinct (map url [ex_item ''A'' ''u'' 60, ex_item ''A'' ''v'' 20, ex_item ''B'' ''w'' 20])
   \<and> second_pass clock0 {} (url_feed_count_of ex_fetch clock0 ex_feeds)
         (take 3 (all_candidates_of ex_fetch clock0 ex_feeds)) (1, {}, [])
       = Inr (3, {''u'', ''v''}, [ex_item ''A'' ''u'' 60, ex_item ''A'' ''v'' 20])
   \<and> (\<exists>k seen_urls new_items.
         second_pass clock0 {} (url_feed_count_of ex_fetch clock0 ex_feeds)
           (take 3 (all_candidates_of ex_fetch clock0 ex_feeds)) (1, {}, [])
         = Inr (k, seen_urls, new_items)
         \<and> prefix new_items
             [ex_item ''A'' ''u'' 60, ex_item ''A'' ''v'' 20, ex_item ''B'' ''w'' 20])"
proof -
  have run: "main ex_fetch clock0 all_ok ex_feeds {}
     = Inr ([ex_item ''A'' ''u'' 60, ex_item ''A'' ''v'' 20, ex_item ''B'' ''w'' 20],
            [Store_call (Insert [ex_item ''A'' ''u'' 60, ex_item ''A'' ''v'' 20,
                                 ex_item ''B'' ''w'' 20]) True,
             Log (Inserted 3 3), Log (Done_written 3),
             Store_call (Delete_published_before ex_cutoff) True,
             Store_call (Delete_undated_fetched_before ex_cutoff) True,
             Log Old_items_cleaned_up])"
    by code_simp
  have urls: "map candidate_url (all_candidates_of ex_fetch clock0 ex_feeds)
       = [''u'', ''v'', ''u'', ''u'', ''w'']"
    by code_simp
  have ids: "map (\<lambda>c. f_id (snd c)) (all_candidates_of ex_fetch clock0 ex_feeds)
       = [''A'', ''A'', ''A'', ''B'', ''B'']"
    by code_simp
  have part: "second_pass clock0 {} (url_feed_count_of ex_fetch clock0 ex_feeds)
         (take 3 (all_candidates_of ex_fetch clock0 ex_feeds)) (1, {}, [])
       = Inr (3, {''u'', ''v''}, [ex_item ''A'' ''u'' 60, ex_item ''A'' ''v'' 20])"
    by code_simp
  have split: "all_candidates_of ex_fetch clock0 ex_feeds
       = take 3 (all_candidates_of ex_fetch clock0 ex_feeds)
         @ drop 3 (all_candidates_of ex_fetch clock0 ex_feeds)"
    by simp
  show ?thesis
    using run urls ids part split first_occurrence_wins [OF run] by blast
qed

lemma collect_entries_count:
  "fst (collect_entries cutoff f es (cnt, cands)) u
   = (let n = length (filter (\<lambda>e. entry_url e = u) (filter (is_candidate cutoff) es))
      in if n = 0 then cnt u else Some ((case cnt u of None \<Rightarrow> 0 | Some m \<Rightarrow> m) + int n))"
proof (induction es arbitrary: cnt cands)
  case Nil
  then show ?case by simp
next
  case (Cons e es)
  show ?case
    by (simp add: Cons.IH Let_def is_candidate_def split: option.splits)
qed

lemma feed_candidates_count:
  "length (filter (\<lambda>c. candidate_url c = u) (feed_candidates fetch cutoff f))
   = (case fetch f of None \<Rightarrow> 0
      | Some es \<Rightarrow> length (filter (\<lambda>e. entry_url e = u)
                            (filter (is_candidate cutoff) (capped_entries f es))))"
  by (simp add: feed_candidates_def candidate_url_def filter_map o_def split: option.splits)

lemma first_pass_count:
  "fst (first_pass fetch cutoff fs st) u
   = (let n = length (filter (\<lambda>c. candidate_url c = u)
                        (concat (map (feed_candidates fetch cutoff) fs)))
      in if n = 0 then fst st u
         else Some ((case fst st u of None \<Rightarrow> 0 | Some m \<Rightarrow> m) + int n))"
proof (induction fs arbitrary: st)
  case Nil
  then show ?case by simp
next
  case (Cons f fs)
  obtain cnt cands where st: "st = (cnt, cands)"
    by (cases st)
  show ?case
  proof (cases "fetch f")
    case None
    then show ?thesis
      by (simp add: Cons.IH feed_candidates_def)
  next
    case (Some es)
    obtain cnt' cands' where step: "collect_entries cutoff f (capped_entries f es) (cnt, cands)
                                    = (cnt', cands')"
      by (cases "collect_entries cutoff f (capped_entries f es) (cnt, cands)")
    have cnt': "cnt' u
        = (let n = length (filter (\<lambda>c. candidate_url c = u) (feed_candidates fetch cutoff f))
           in if n = 0 then cnt u else Some ((case cnt u of None \<Rightarrow> 0 | Some m \<Rightarrow> m) + int n))"
      using collect_entries_count [of cutoff f "capped_entries f es" cnt cands u]
      by (simp add: step feed_candidates_count Some)
    show ?thesis
      by (simp add: Some st step Cons.IH cnt' Let_def split: option.splits)
  qed
qed

lemma url_feed_count_counts_entries:
  "url_feed_count_of fetch clock feeds u
   = (let n = length (filter (\<lambda>c. candidate_url c = u) (all_candidates_of fetch clock feeds))
      in if n = 0 then None else Some (int n))"
  by (simp add: url_feed_count_of_def first_pass_count all_candidates_in_feed_order)

lemma multi_source_counts_entries:
  "multi_source (url_feed_count_of fetch clock feeds) e
   = (if 3 \<le> length (filter (\<lambda>c. candidate_url c = entry_link e)
                      (all_candidates_of fetch clock feeds))
      then 40 else 0)"
  by (simp add: multi_source_def url_feed_count_counts_entries Let_def entry_link_def
      MULTI_SOURCE_BUMP_def)

text \<open>
  C1: \<^verbatim>\<open>url_feed_count\<close> counts candidate entries, not feeds: when feed A lists the url u
  twice and feed B once, two distinct feeds present u, the count is 3 and the item gets the
  bonus (20 + 40). The count is looked up with the link as it stands: when three feeds list
  u with a blank before it, three distinct feeds present u and the item gets no bonus (20).
\<close>

theorem correlation_counts_entries:
  "spec_correlation_count (all_candidates_of ex_fetch clock0 ex_feeds) ''u'' = 2
   \<and> url_feed_count_of ex_fetch clock0 ex_feeds ''u'' = Some 3
   \<and> main ex_fetch clock0 all_ok ex_feeds {}
       = Inr ([ex_item ''A'' ''u'' (20 + 40), ex_item ''A'' ''v'' 20, ex_item ''B'' ''w'' 20],
              [Store_call (Insert [ex_item ''A'' ''u'' (20 + 40), ex_item ''A'' ''v'' 20,
                                   ex_item ''B'' ''w'' 20]) True,
               Log (Inserted 3 3), Log (Done_written 3),
               Store_call (Delete_published_before ex_cutoff) True,
               Store_call (Delete_undated_fetched_before ex_cutoff) True,
               Log Old_items_cleaned_up])
   \<and> spec_correlation_count
         (all_candidates_of ex_fetch_padded clock0
            [ex_feed ''A'' (Val 2), ex_feed ''B'' (Val 2), ex_feed ''C'' (Val 2)]) ''u'' = 3
   \<and> main ex_fetch_padded clock0 all_ok
         [ex_feed ''A'' (Val 2), ex_feed ''B'' (Val 2), ex_feed ''C'' (Val 2)] {}
       = Inr ([ex_item ''A'' ''u'' 20],
              [Store_call (Insert [ex_item ''A'' ''u'' 20]) True,
               Log (Inserted 1 1), Log (Done_written 1),
               Store_call (Delete_published_before ex_cutoff) True,
               Store_call (Delete_undated_fetched_before ex_cutoff) True,
               Log Old_items_cleaned_up])"
proof -
  have a: "spec_correlation_count (all_candidates_of ex_fetch clock0 ex_feeds) ''u'' = 2"
    by code_simp
  have b: "url_feed_count_of ex_fetch clock0 ex_feeds ''u'' = Some 3"
    by code_simp
  have c: "main ex_fetch clock0 all_ok ex_feeds {}
       = Inr ([ex_item ''A'' ''u'' (20 + 40), ex_item ''A'' ''v'' 20, ex_item ''B'' ''w'' 20],
              [Store_call (Insert [ex_item ''A'' ''u'' (20 + 40), ex_item ''A'' ''v'' 20,
                                   ex_item ''B'' ''w'' 20]) True,
               Log (Inserted 3 3), Log (Done_written 3),
               Store_call (Delete_published_before ex_cutoff) True,
               Store_call (Delete_undated_fetched_before ex_cutoff) True,
               Log Old_items_cleaned_up])"
    by code_simp
  have d: "spec_correlation_count
         (all_candidates_of ex_fetch_padded clock0
            [ex_feed ''A'' (Val 2), ex_feed ''B'' (Val 2), ex_feed ''C'' (Val 2)]) ''u'' = 3"
    by code_simp
  have e: "main ex_fetch_padded clock0 all_ok
         [ex_feed ''A'' (Val 2), ex_feed ''B'' (Val 2), ex_feed ''C'' (Val 2)] {}
       = Inr ([ex_item ''A'' ''u'' 20],
              [Store_call (Insert [ex_item ''A'' ''u'' 20]) True,
               Log (Inserted 1 1), Log (Done_written 1),
               Store_call (Delete_published_before ex_cutoff) True,
               Store_call (Delete_undated_fetched_before ex_cutoff) True,
               Log Old_items_cleaned_up])"
    by code_simp
  show ?thesis
    using a b c d e by blast
qed

section \<open>Properties of the store phase\<close>

lemma insert_loop_attempted:
  "attempted (fst (insert_loop ok new_items is (k, n)))
   = map (\<lambda>i. Insert (take chunk_size (drop i new_items))) is"
  by (induction "is" arbitrary: k n) (simp_all add: Let_def case_prod_beta)

lemma insert_loop_calls:
  "fst (snd (insert_loop ok new_items is (k, n))) = k + length is"
  by (induction "is" arbitrary: k n) (simp_all add: Let_def case_prod_beta)

lemma insert_loop_errors:
  "length (filter (\<lambda>l. l = Insert_error) (logged (fst (insert_loop ok new_items is (k, n)))))
   = length (filter (\<lambda>j. \<not> ok j) [k ..< k + length is])"
proof (induction "is" arbitrary: k n)
  case Nil
  then show ?case by simp
next
  case (Cons i "is")
  have upt: "[k ..< k + length (i # is)] = k # [Suc k ..< Suc k + length is]"
    by (simp add: upt_conv_Cons del: upt_Suc)
  show ?case
    unfolding upt using Cons.IH [of "Suc k"]
    by (simp add: Let_def case_prod_beta)
qed

lemma insert_loop_no_cleanup:
  "Cleanup_error \<notin> set (logged (fst (insert_loop ok new_items is (k, n))))"
  by (induction "is" arbitrary: k n) (simp_all add: Let_def case_prod_beta)

lemma attempted_append [simp]: "attempted (xs @ ys) = attempted xs @ attempted ys"
  by (induction xs rule: attempted.induct) simp_all

lemma logged_append [simp]: "logged (xs @ ys) = logged xs @ logged ys"
  by (induction xs rule: logged.induct) simp_all

lemma chunks_take:
  "concat (map (\<lambda>j. take s (drop (j * s) xs)) [0 ..< m]) = take (m * s) xs"
proof (induction m)
  case 0
  then show ?case by simp
next
  case (Suc m)
  have "take (m * s + s) xs = take (m * s) xs @ take s (drop (m * s) xs)"
    by (rule take_add)
  with Suc show ?case
    by (simp add: add.commute)
qed

lemma chunks_cover:
  "concat (map (\<lambda>i. take chunk_size (drop i xs)) (py_range_step (length xs) chunk_size)) = xs"
proof -
  have "length xs \<le> (length xs + chunk_size - 1) div chunk_size * chunk_size"
    by (simp add: chunk_size_def)
  then show ?thesis
    using chunks_take [of chunk_size xs "(length xs + chunk_size - 1) div chunk_size"]
    by (simp add: py_range_step_def o_def)
qed

lemma persist_attempted:
  "attempted (persist ok now new_items)
   = map (\<lambda>i. Insert (take chunk_size (drop i new_items)))
       (py_range_step (length new_items) chunk_size)
     @ Delete_published_before (now - timedelta_days MAX_AGE_DAYS)
     # (if ok (length (py_range_step (length new_items) chunk_size))
        then [Delete_undated_fetched_before (now - timedelta_days MAX_AGE_DAYS)] else [])"
proof -
  obtain evs k n where
    loop: "insert_loop ok new_items (py_range_step (length new_items) chunk_size) (0, 0)
           = (evs, k, n)"
    by (metis prod_cases3)
  have evs: "attempted evs = map (\<lambda>i. Insert (take chunk_size (drop i new_items)))
       (py_range_step (length new_items) chunk_size)"
    using insert_loop_attempted [of ok new_items "py_range_step (length new_items) chunk_size" 0 0]
    by (simp add: loop)
  have k: "k = length (py_range_step (length new_items) chunk_size)"
    using insert_loop_calls [of ok new_items "py_range_step (length new_items) chunk_size" 0 0]
    by (simp add: loop)
  show ?thesis
    by (simp add: persist_def loop evs cleanup_def flip: k)
qed

lemma persist_logged:
  "length (filter (\<lambda>l. l = Insert_error) (logged (persist ok now new_items)))
     = length (filter (\<lambda>j. \<not> ok j) [0 ..< length (py_range_step (length new_items) chunk_size)])
   \<and> (Cleanup_error \<in> set (logged (persist ok now new_items))
        \<longleftrightarrow> \<not> ok (length (py_range_step (length new_items) chunk_size))
            \<or> \<not> ok (Suc (length (py_range_step (length new_items) chunk_size))))"
proof -
  obtain evs k n where
    loop: "insert_loop ok new_items (py_range_step (length new_items) chunk_size) (0, 0)
           = (evs, k, n)"
    by (metis prod_cases3)
  have errs: "length (filter (\<lambda>l. l = Insert_error) (logged evs))
     = length (filter (\<lambda>j. \<not> ok j) [0 ..< length (py_range_step (length new_items) chunk_size)])"
    using insert_loop_errors [of ok new_items "py_range_step (length new_items) chunk_size" 0 0]
    by (simp add: loop)
  have none: "Cleanup_error \<notin> set (logged evs)"
    using insert_loop_no_cleanup [of ok new_items "py_range_step (length new_items) chunk_size" 0 0]
    by (simp add: loop)
  have k: "k = length (py_range_step (length new_items) chunk_size)"
    using insert_loop_calls [of ok new_items "py_range_step (length new_items) chunk_size" 0 0]
    by (simp add: loop)
  show ?thesis
    using errs none by (simp add: persist_def loop cleanup_def flip: k)
qed

text \<open>
  C2: a run whose second pass ends with a non-empty batch returns normally whatever the
  store does. Every chunk of the batch is handed to an insert whatever the outcome of the
  other chunks, the chunks together are the batch, each failed chunk is logged, and the
  first delete of the retention sweep is attempted after them. The second delete is
  attempted exactly when the first one returned; a failure of either delete is logged.
\<close>

theorem store_failures:
  assumes "feeds \<noteq> []"
    and "second_pass clock existing_urls (url_feed_count_of fetch clock feeds)
           (all_candidates_of fetch clock feeds) (1, {}, []) = Inr (k, seen_urls, batch)"
    and "batch \<noteq> []"
  shows "\<exists>evs.
           main fetch clock ok feeds existing_urls = Inr (batch, evs)
         \<and> attempted evs
             = map (\<lambda>i. Insert (take chunk_size (drop i batch)))
                 (py_range_step (length batch) chunk_size)
               @ Delete_published_before (clock k - timedelta_days MAX_AGE_DAYS)
               # (if ok (length (py_range_step (length batch) chunk_size))
                  then [Delete_undated_fetched_before (clock k - timedelta_days MAX_AGE_DAYS)]
                  else [])
         \<and> concat (map (\<lambda>i. take chunk_size (drop i batch))
               (py_range_step (length batch) chunk_size)) = batch
         \<and> length (filter (\<lambda>l. l = Insert_error) (logged evs))
             = length (filter (\<lambda>j. \<not> ok j) [0 ..< length (py_range_step (length batch) chunk_size)])
         \<and> (Cleanup_error \<in> set (logged evs)
              \<longleftrightarrow> \<not> ok (length (py_range_step (length batch) chunk_size))
                  \<or> \<not> ok (Suc (length (py_range_step (length batch) chunk_size))))"
proof -
  have run: "main fetch clock ok feeds existing_urls = Inr (batch, persist ok (clock k) batch)"
    using assms by (simp add: main_def)
  show ?thesis
    unfolding run
    using persist_attempted [of ok "clock k" batch] persist_logged [of ok "clock k" batch]
      chunks_cover [of batch]
    by blast
qed

theorem store_failures_witness:
  "ex_feeds \<noteq> []
   \<and> second_pass clock0 {} (url_feed_count_of ex_fetch clock0 ex_feeds)
         (all_candidates_of ex_fetch clock0 ex_feeds) (1, {}, [])
       = Inr (4, {''u'', ''v'', ''w''},
              [ex_item ''A'' ''u'' 60, ex_item ''A'' ''v'' 20, ex_item ''B'' ''w'' 20])
   \<and> [ex_item ''A'' ''u'' 60, ex_item ''A'' ''v'' 20, ex_item ''B'' ''w'' 20] \<noteq> []
   \<and> py_range_step 3 chunk_size = [0]
   \<and> \<not> ok_except 0 0 \<and> ok_except 0 1 \<and> ok_except 0 2
   \<and> main ex_fetch clock0 (ok_except 0) ex_feeds {}
       = Inr ([ex_item ''A'' ''u'' 60, ex_item ''A'' ''v'' 20, ex_item ''B'' ''w'' 20],
              [Store_call (Insert [ex_item ''A'' ''u'' 60, ex_item ''A'' ''v'' 20,
                                   ex_item ''B'' ''w'' 20]) False,
               Log Insert_error, Log (Done_written 0),
               Store_call (Delete_published_before ex_cutoff) True,
               Store_call (Delete_undated_fetched_before ex_cutoff) True,
               Log Old_items_cleaned_up])
   \<and> (\<exists>evs. main ex_fetch clock0 (ok_except 0) ex_feeds {}
               = Inr ([ex_item ''A'' ''u'' 60, ex_item ''A'' ''v'' 20, ex_item ''B'' ''w'' 20], evs)
            \<and> attempted evs
               = [Insert [ex_item ''A'' ''u'' 60, ex_item ''A'' ''v'' 20, ex_item ''B'' ''w'' 20],
                  Delete_published_before ex_cutoff, Delete_undated_fetched_before ex_cutoff]
            \<and> length (filter (\<lambda>l. l = Insert_error) (logged evs)) = 1
            \<and> Cleanup_error \<notin> set (logged evs))
   \<and> (\<exists>evs. main ex_fetch clock0 (ok_except 1) ex_feeds {}
               = Inr ([ex_item ''A'' ''u'' 60, ex_item ''A'' ''v'' 20, ex_item ''B'' ''w'' 20], evs)
            \<and> attempted evs
               = [Insert [ex_item ''A'' ''u'' 60, ex_item ''A'' ''v'' 20, ex_item ''B'' ''w'' 20],
                  Delete_published_before ex_cutoff]
            \<and> length (filter (\<lambda>l. l = Insert_error) (logged evs)) = 0
            \<and> Cleanup_error \<in> set (logged evs))"
proof -
  have ne: "ex_feeds \<noteq> []"
    by (simp add: ex_feeds_def)
  have pass: "second_pass clock0 {} (url_feed_count_of ex_fetch clock0 ex_feeds)
         (all_candidates_of ex_fetch clock0 ex_feeds) (1, {}, [])
       = Inr (4, {''u'', ''v'', ''w''},
              [ex_item ''A'' ''u'' 60, ex_item ''A'' ''v'' 20, ex_item ''B'' ''w'' 20])"
    by code_simp
  have batch: "[ex_item ''A'' ''u'' 60, ex_item ''A'' ''v'' 20, ex_item ''B'' ''w'' 20] \<noteq> []"
    by simp
  have range: "py_range_step 3 chunk_size = [0]"
    by code_simp
  have range': "py_range_step
      (length [ex_item ''A'' ''u'' 60, ex_item ''A'' ''v'' 20, ex_item ''B'' ''w'' 20])
      chunk_size = [0]"
    by code_simp
  have cut: "clock0 4 - timedelta_days MAX_AGE_DAYS = ex_cutoff"
    by code_simp
  have run: "main ex_fetch clock0 (ok_except 0) ex_feeds {}
       = Inr ([ex_item ''A'' ''u'' 60, ex_item ''A'' ''v'' 20, ex_item ''B'' ''w'' 20],
              [Store_call (Insert [ex_item ''A'' ''u'' 60, ex_item ''A'' ''v'' 20,
                                   ex_item ''B'' ''w'' 20]) False,
               Log Insert_error, Log (Done_written 0),
               Store_call (Delete_published_before ex_cutoff) True,
               Store_call (Delete_undated_fetched_before ex_cutoff) True,
               Log Old_items_cleaned_up])"
    by code_simp
  have general: "\<exists>evs. main ex_fetch clock0 (ok_except 0) ex_feeds {}
               = Inr ([ex_item ''A'' ''u'' 60, ex_item ''A'' ''v'' 20, ex_item ''B'' ''w'' 20], evs)
            \<and> attempted evs
               = [Insert [ex_item ''A'' ''u'' 60, ex_item ''A'' ''v'' 20, ex_item ''B'' ''w'' 20],
                  Delete_published_before ex_cutoff, Delete_undated_fetched_before ex_cutoff]
            \<and> length (filter (\<lambda>l. l = Insert_error) (logged evs)) = 1
            \<and> Cleanup_error \<notin> set (logged evs)"
    using store_failures [OF ne pass batch, of "ok_except 0", unfolded range' cut]
    by (simp add: ok_except_def chunk_size_def)
  have skipped: "\<exists>evs. main ex_fetch clock0 (ok_except 1) ex_feeds {}
               = Inr ([ex_item ''A'' ''u'' 60, ex_item ''A'' ''v'' 20, ex_item ''B'' ''w'' 20], evs)
            \<and> attempted evs
               = [Insert [ex_item ''A'' ''u'' 60, ex_item ''A'' ''v'' 20, ex_item ''B'' ''w'' 20],
                  Delete_published_before ex_cutoff]
            \<and> length (filter (\<lambda>l. l = Insert_error) (logged evs)) = 0
            \<and> Cleanup_error \<in> set (logged evs)"
    using store_failures [OF ne pass batch, of "ok_except 1", unfolded range' cut]
    by (simp add: ok_except_def chunk_size_def)
  show ?thesis
    using ne pass batch range run general skipped by (simp add: ok_except_def)
qed

text \<open>
  C2, as stated, fails: when the first delete of the retention sweep raises, the second
  delete is not attempted.
\<close>

theorem second_delete_skipped:
  "main ex_fetch clock0 (ok_except 1) ex_feeds {}
     = Inr ([ex_item ''A'' ''u'' 60, ex_item ''A'' ''v'' 20, ex_item ''B'' ''w'' 20],
            [Store_call (Insert [ex_item ''A'' ''u'' 60, ex_item ''A'' ''v'' 20,
                                 ex_item ''B'' ''w'' 20]) True,
             Log (Inserted 3 3), Log (Done_written 3),
             Store_call (Delete_published_before ex_cutoff) False,
             Log Cleanup_error])
   \<and> Delete_undated_fetched_before ex_cutoff
       \<notin> set (attempted (snd (projr (main ex_fetch clock0 (ok_except 1) ex_feeds {}))))"
proof -
  have run: "main ex_fetch clock0 (ok_except 1) ex_feeds {}
     = Inr ([ex_item ''A'' ''u'' 60, ex_item ''A'' ''v'' 20, ex_item ''B'' ''w'' 20],
            [Store_call (Insert [ex_item ''A'' ''u'' 60, ex_item ''A'' ''v'' 20,
                                 ex_item ''B'' ''w'' 20]) True,
             Log (Inserted 3 3), Log (Done_written 3),
             Store_call (Delete_published_before ex_cutoff) False,
             Log Cleanup_error])"
    by code_simp
  show ?thesis
    unfolding run by simp
qed

end
